theory Spec2Isabelle
  imports Main "HOL-Library.Sublist"
begin

text \<open>
  A model of the Cloudflare worker \<open>_worker.js\<close>, a reverse proxy that rewrites hostnames in
  headers and bodies: the substitution of hostnames by a global regular-expression
  replacement, the resolution of the upstream host, the access check, and the handler
  \<open>fetch\<close> that combines them.  The built-in RegExp engine is modelled in full for the one
  pattern that the worker builds from a hostname, and is a parameter for the patterns
  that come from the configuration; the upstream server and the built-in functions on
  URLs are parameters as well.
\<close>

section \<open>Strings and characters\<close>

text \<open>
  A JavaScript string is modelled as a \<open>string\<close>, one \<open>char\<close> per code unit.  Header
  values, hostnames, paths and patterns of the worker are ASCII in practice; the model
  covers code units below 256.
\<close>

definition code :: "char \<Rightarrow> nat" where
  "code c = of_char c"

text \<open>The class \<open>\w\<close> of a RegExp without the unicode flag: \<open>[A-Za-z0-9_]\<close>.\<close>

definition is_word_char :: "char \<Rightarrow> bool" where
  "is_word_char c =
     ((48 \<le> code c \<and> code c \<le> 57) \<or> (65 \<le> code c \<and> code c \<le> 90)
      \<or> code c = 95 \<or> (97 \<le> code c \<and> code c \<le> 122))"

text \<open>Line terminators, which the pattern character \<open>.\<close> does not match (LF and CR; U+2028
  and U+2029 lie outside the modelled range).\<close>

definition is_line_terminator :: "char \<Rightarrow> bool" where
  "is_line_terminator c = (code c = 10 \<or> code c = 13)"

text \<open>\<open>s.startsWith(p)\<close>\<close>

definition startsWith :: "string \<Rightarrow> string \<Rightarrow> bool" where
  "startsWith s p = (take (length p) s = p)"

text \<open>\<open>s.includes(p)\<close>: \<open>p\<close> occurs at some offset of \<open>s\<close>.\<close>

definition includes_str :: "string \<Rightarrow> string \<Rightarrow> bool" where
  "includes_str s p = list_ex (\<lambda>i. startsWith (drop i s) p) [0..<Suc (length s)]"

section \<open>The substitution engine\<close>

subsection \<open>Matching at a position\<close>

text \<open>
  A compiled pattern is modelled by what it does at one position of a text: given the text
  before the position and the text from the position on, it yields the length of the match
  that the backtracking search finds first there, or \<open>None\<close>.
\<close>

type_synonym matcher = "string \<Rightarrow> string \<Rightarrow> nat option"

text \<open>The lookbehind \<open>(?<!\.)\<close>: the position is not preceded by a dot.\<close>

definition not_after_dot :: "string \<Rightarrow> bool" where
  "not_after_dot pre = (pre = [] \<or> last pre \<noteq> CHR ''.'')"

text \<open>The assertion \<open>\b\<close>: exactly one of the two neighbours of the position is a word
  character; the edges of the text count as non-word.\<close>

definition word_before :: "string \<Rightarrow> bool" where
  "word_before pre = (pre \<noteq> [] \<and> is_word_char (last pre))"

definition word_after :: "string \<Rightarrow> bool" where
  "word_after post = (post \<noteq> [] \<and> is_word_char (hd post))"

definition word_boundary :: "string \<Rightarrow> string \<Rightarrow> bool" where
  "word_boundary pre post = (word_before pre \<noteq> word_after post)"

text \<open>
  The hostname is spliced into the pattern source as it is.  A hostname is made of letters,
  digits, hyphens and dots; of these only the dot is a pattern metacharacter: it matches any
  character but a line terminator.  Every other character of a hostname matches itself.
\<close>

definition atom_matches :: "char \<Rightarrow> char \<Rightarrow> bool" where
  "atom_matches p c = (if p = CHR ''.'' then \<not> is_line_terminator c else c = p)"

text \<open>The pattern \<open>(?<!\.)\bHOST\b\<close> at one position.\<close>

definition host_match :: "string \<Rightarrow> matcher" where
  "host_match host pre post =
     (let n = length host in
      if not_after_dot pre \<and> word_boundary pre post \<and> n \<le> length post
         \<and> list_all2 atom_matches host (take n post)
         \<and> word_boundary (pre @ take n post) (drop n post)
      then Some n else None)"

text \<open>The pattern \<open>((?<!\.)\bHOST\b)(PATH)\<close> at one position, \<open>pm\<close> being the matcher of the
  pattern \<open>PATH\<close>: the host part has one way to match, then \<open>PATH\<close> is matched where the
  host part ends.\<close>

definition host_then :: "string \<Rightarrow> matcher \<Rightarrow> matcher" where
  "host_then host pm pre post =
     (case host_match host pre post of
        None \<Rightarrow> None
      | Some n \<Rightarrow>
          (case pm (pre @ take n post) (drop n post) of
             None \<Rightarrow> None
           | Some k \<Rightarrow> Some (n + k)))"

subsection \<open>Global replacement\<close>

text \<open>
  \<open>text.replace(re, replacement)\<close> with a global \<open>re\<close> first collects the matches from
  left to right (the search resumes where the last match ended, one character further
  after an empty match) and then assembles the result from the text between the matches
  and the replacement of each match.  The scan is recorded as a list of pieces: a
  character that is copied, or the text of a match.  \<open>segments m pre post\<close> scans \<open>post\<close>,
  the text \<open>pre\<close> before it being there for the assertions that look behind; at the end
  of the text only an empty match is left to find.
\<close>

datatype piece = Kept char | Matched string

fun src :: "piece \<Rightarrow> string" where
  "src (Kept c) = [c]"
| "src (Matched w) = w"

definition srcs :: "piece list \<Rightarrow> string" where
  "srcs ps = concat (map src ps)"

function segments :: "matcher \<Rightarrow> string \<Rightarrow> string \<Rightarrow> piece list" where
  "segments m pre [] = (case m pre [] of None \<Rightarrow> [] | Some n \<Rightarrow> [Matched []])"
| "segments m pre (c # cs) =
     (case m pre (c # cs) of
        None \<Rightarrow> Kept c # segments m (pre @ [c]) cs
      | Some n \<Rightarrow>
          (if n = 0 then Matched [] # Kept c # segments m (pre @ [c]) cs
           else Matched (take n (c # cs))
                  # segments m (pre @ take n (c # cs)) (drop n (c # cs))))"
  by pat_completeness auto
termination
  by (relation "measure (\<lambda>(m, pre, post). length post)") auto

fun render :: "(string \<Rightarrow> string) \<Rightarrow> piece \<Rightarrow> string" where
  "render rep (Kept c) = [c]"
| "render rep (Matched w) = rep w"

definition assemble :: "(string \<Rightarrow> string) \<Rightarrow> piece list \<Rightarrow> string" where
  "assemble rep ps = concat (map (render rep) ps)"

definition replace_global :: "matcher \<Rightarrow> (string \<Rightarrow> string) \<Rightarrow> string \<Rightarrow> string" where
  "replace_global m rep text = assemble rep (segments m [] text)"

text \<open>
  The expression \<open>text.replace(new RegExp(`(?<!\\.)\\b${from}\\b`, "g"), to)\<close>, which
  the source writes out in \<open>createNewRequest\<close>, \<open>setResponseHeaders\<close> and twice in
  \<open>replaceResponseText\<close>.  The replacement is a hostname and so has no \<open>$\<close> sequence.
\<close>

definition rewriteText :: "string \<Rightarrow> string \<Rightarrow> string \<Rightarrow> string" where
  "rewriteText text from to = replace_global (host_match from) (\<lambda>w. to) text"

section \<open>Host resolution\<close>

text \<open>The list \<open>apiPaths\<close> of \<open>isGitHubAPIPath\<close>, in the order of the source.\<close>

definition apiPaths :: "string list" where
  "apiPaths =
     [''/repos/'', ''/user'', ''/users/'', ''/orgs/'', ''/organizations/'', ''/gists/'',
      ''/search/'', ''/rate_limit'', ''/emojis'', ''/events'', ''/feeds'',
      ''/notifications'', ''/meta'', ''/octocat'', ''/zen'', ''/marketplace_listing/'',
      ''/installation/'', ''/app/'', ''/applications/'']"

text \<open>\<open>apiPaths.some(path => pathname.startsWith(path))\<close>\<close>

definition isGitHubAPIPath :: "string \<Rightarrow> bool" where
  "isGitHubAPIPath pathname = list_ex (\<lambda>path. startsWith pathname path) apiPaths"

definition getGitHubProxyHost :: "string \<Rightarrow> string \<Rightarrow> string" where
  "getGitHubProxyHost baseHostname pathname =
     (if baseHostname = ''github.com'' \<and> isGitHubAPIPath pathname
      then ''api.github.com'' else baseHostname)"

section \<open>Requests, responses and configuration\<close>

text \<open>A \<open>Headers\<close> object: each (lower-case) name has at most one, combined, value;
  \<open>headers.get(name)\<close> is \<open>None\<close> for \<open>null\<close>.\<close>

type_synonym headers = "string \<rightharpoonup> string"

text \<open>The parts of a URL that the worker reads or sets (the port is not modelled:
  \<open>host\<close> and \<open>hostname\<close> coincide).\<close>

record url =
  url_protocol :: string
  url_hostname :: string
  url_pathname :: string
  url_search :: string

record request =
  req_url :: url
  req_method :: string
  req_headers :: headers
  req_body :: string

text \<open>The response of the upstream, its body not yet read.\<close>

record upstream_response =
  up_status :: nat
  up_headers :: headers
  up_body :: string

text \<open>The body handed to \<open>new Response\<close>: the upstream's stream as it is, or the string that
  \<open>replaceResponseText\<close> returned.\<close>

datatype body = Stream string | Text string

record response =
  res_status :: nat
  res_headers :: headers
  res_body :: body

text \<open>The bindings destructured from \<open>env\<close>; an unset binding is \<open>None\<close>.\<close>

record env =
  PROXY_HOSTNAME :: "string option"
  PROXY_PROTOCOL :: "string option"
  PATHNAME_REGEX :: "string option"
  UA_WHITELIST_REGEX :: "string option"
  UA_BLACKLIST_REGEX :: "string option"
  URL302 :: "string option"
  IP_WHITELIST_REGEX :: "string option"
  IP_BLACKLIST_REGEX :: "string option"
  REGION_WHITELIST_REGEX :: "string option"
  REGION_BLACKLIST_REGEX :: "string option"
  DEBUG :: "string option"

text \<open>A binding is truthy when it is set and not the empty string.\<close>

definition truthy :: "string option \<Rightarrow> bool" where
  "truthy v = (case v of None \<Rightarrow> False | Some s \<Rightarrow> s \<noteq> [])"

text \<open>The exceptions that the code of the handler itself throws inside its \<open>try\<close> block.\<close>

datatype fault = TypeError | SyntaxError

section \<open>The RegExp engine\<close>

text \<open>
  The configured patterns are arbitrary.  The engine is a parameter of the model:
  it maps a pattern source to its matcher, or to \<open>None\<close> where \<open>new RegExp\<close> throws a
  \<open>SyntaxError\<close>.
\<close>

type_synonym engine = "string \<Rightarrow> matcher option"

text \<open>\<open>re.test(s)\<close> for a \<open>re\<close> without flags: some position of \<open>s\<close> has a match.\<close>

definition search :: "matcher \<Rightarrow> string \<Rightarrow> bool" where
  "search m s = list_ex (\<lambda>i. m (take i s) (drop i s) \<noteq> None) [0..<Suc (length s)]"

definition regexp_test :: "engine \<Rightarrow> string \<Rightarrow> string \<Rightarrow> fault + bool" where
  "regexp_test rx p s = (case rx p of None \<Rightarrow> Inl SyntaxError | Some m \<Rightarrow> Inr (search m s))"

text \<open>\<open>s.toLowerCase()\<close> on the modelled range: the ASCII capitals and the capitals of
  Latin-1 (U+00C0 to U+00DE without the multiplication sign).\<close>

definition lower_char :: "char \<Rightarrow> char" where
  "lower_char c =
     (if (65 \<le> code c \<and> code c \<le> 90) \<or> (192 \<le> code c \<and> code c \<le> 222 \<and> code c \<noteq> 215)
      then char_of (code c + 32) else c)"

definition toLowerCase :: "string \<Rightarrow> string" where
  "toLowerCase s = map lower_char s"

section \<open>Access control\<close>

text \<open>\<open>new RegExp(p).test(request.headers.get("user-agent").toLowerCase())\<close>: the pattern
  is compiled first; a request without the header then has \<open>toLowerCase\<close> called on
  \<open>null\<close>.\<close>

definition test_user_agent :: "engine \<Rightarrow> string \<Rightarrow> request \<Rightarrow> fault + bool" where
  "test_user_agent rx p request =
     (case rx p of
        None \<Rightarrow> Inl SyntaxError
      | Some m \<Rightarrow>
          (case req_headers request ''user-agent'' of
             None \<Rightarrow> Inl TypeError
           | Some ua \<Rightarrow> Inr (search m (toLowerCase ua))))"

text \<open>\<open>new RegExp(p).test(request.headers.get(name))\<close>: \<open>test\<close> converts its argument to
  a string, \<open>null\<close> to \<open>"null"\<close>.\<close>

definition header_string :: "request \<Rightarrow> string \<Rightarrow> string" where
  "header_string request name =
     (case req_headers request name of None \<Rightarrow> ''null'' | Some v \<Rightarrow> v)"

definition test_header :: "engine \<Rightarrow> string \<Rightarrow> string \<Rightarrow> request \<Rightarrow> fault + bool" where
  "test_header rx p name request = regexp_test rx p (header_string request name)"

text \<open>\<open>X && f(X)\<close> for a binding \<open>X\<close>, and \<open>!b\<close>.\<close>

definition when_set :: "string option \<Rightarrow> (string \<Rightarrow> fault + bool) \<Rightarrow> fault + bool" where
  "when_set v f = (case v of None \<Rightarrow> Inr False | Some p \<Rightarrow> if p = [] then Inr False else f p)"

definition negate :: "fault + bool \<Rightarrow> fault + bool" where
  "negate r = (case r of Inl e \<Rightarrow> Inl e | Inr b \<Rightarrow> Inr (\<not> b))"

text \<open>\<open>d1 || d2 || ...\<close>, evaluated from the left: the first operand that throws or is true
  decides, the operands after it are not evaluated.\<close>

fun any_of :: "(fault + bool) list \<Rightarrow> fault + bool" where
  "any_of [] = Inr False"
| "any_of (Inl e # ds) = Inl e"
| "any_of (Inr b # ds) = (if b then Inr True else any_of ds)"

text \<open>The operands of the condition of \<open>fetch\<close> that guards the rejection, in order.\<close>

definition conditions :: "engine \<Rightarrow> env \<Rightarrow> request \<Rightarrow> (fault + bool) list" where
  "conditions rx env request =
     [Inr (\<not> truthy (PROXY_HOSTNAME env)),
      when_set (PATHNAME_REGEX env)
        (\<lambda>p. negate (regexp_test rx p (url_pathname (req_url request)))),
      when_set (UA_WHITELIST_REGEX env) (\<lambda>p. negate (test_user_agent rx p request)),
      when_set (UA_BLACKLIST_REGEX env) (\<lambda>p. test_user_agent rx p request),
      when_set (IP_WHITELIST_REGEX env)
        (\<lambda>p. negate (test_header rx p ''cf-connecting-ip'' request)),
      when_set (IP_BLACKLIST_REGEX env) (\<lambda>p. test_header rx p ''cf-connecting-ip'' request),
      when_set (REGION_WHITELIST_REGEX env)
        (\<lambda>p. negate (test_header rx p ''cf-ipcountry'' request)),
      when_set (REGION_BLACKLIST_REGEX env) (\<lambda>p. test_header rx p ''cf-ipcountry'' request)]"

text \<open>The condition itself: \<open>Inr True\<close> rejects the request, \<open>Inr False\<close> lets it through,
  \<open>Inl\<close> is an exception.\<close>

definition invalid :: "engine \<Rightarrow> env \<Rightarrow> request \<Rightarrow> fault + bool" where
  "invalid rx env request = any_of (conditions rx env request)"

section \<open>Building the request and the response\<close>

text \<open>The loop over the headers, in \<open>createNewRequest\<close> and in \<open>setResponseHeaders\<close>: a value
  that includes the hostname is set to its rewritten text.\<close>

definition rewrite_value :: "string \<Rightarrow> string \<Rightarrow> string \<Rightarrow> string" where
  "rewrite_value v from to = (if includes_str v from then rewriteText v from to else v)"

definition createNewRequest :: "request \<Rightarrow> url \<Rightarrow> string \<Rightarrow> string \<Rightarrow> request" where
  "createNewRequest request url proxyHostname originHostname =
     (let h0 = (\<lambda>key. map_option (\<lambda>v. rewrite_value v originHostname proxyHostname)
                        (req_headers request key));
          h1 = (if proxyHostname = ''api.github.com'' \<and> h0 ''user-agent'' = None
                then h0(''user-agent'' \<mapsto> ''Cloudflare-Workers-Proxy'') else h0);
          h2 = (if proxyHostname = ''api.github.com'' \<and> h1 ''accept'' = None
                then h1(''accept'' \<mapsto> ''application/vnd.github+json'') else h1)
      in \<lparr>req_url = url, req_method = req_method request, req_headers = h2,
          req_body = req_body request\<rparr>)"

definition setResponseHeaders ::
  "upstream_response \<Rightarrow> string \<Rightarrow> string \<Rightarrow> string option \<Rightarrow> headers" where
  "setResponseHeaders originalResponse proxyHostname originHostname debug =
     (let h0 = (\<lambda>key. map_option (\<lambda>v. rewrite_value v proxyHostname originHostname)
                        (up_headers originalResponse key))
      in if truthy debug then h0(''content-security-policy'' := None) else h0)"

text \<open>\<open>pathnameRegex.replace(/^\^/, "")\<close>: one caret at the start of the pattern is
  dropped.\<close>

definition strip_caret :: "string \<Rightarrow> string" where
  "strip_caret p = (case p of [] \<Rightarrow> [] | c # cs \<Rightarrow> if c = CHR ''^'' then cs else p)"

text \<open>
  The first replacement of \<open>replaceResponseText\<close>.  With a \<open>pathnameRegex\<close> the pattern is
  \<open>((?<!\.)\bHOST\b)(PATH)\<close> and the replacement \<open>`${originHostname}$2`\<close>, the origin
  followed by what the second group matched; \<open>PATH\<close> is taken to be a pattern of its own
  (balanced, without back references), so that the group around it does not change it.
  The hostname is read as the pattern of a hostname; for a \<open>proxyHostname\<close> with other
  metacharacters \<open>new RegExp\<close> may throw or match otherwise, and nothing is stated of
  it below.
\<close>

definition replaceProxyHost ::
  "engine \<Rightarrow> string \<Rightarrow> string \<Rightarrow> string option \<Rightarrow> string \<Rightarrow> fault + string" where
  "replaceProxyHost rx text proxyHostname pathnameRegex originHostname =
     (if truthy pathnameRegex then
        (case rx (strip_caret (the pathnameRegex)) of
           None \<Rightarrow> Inl SyntaxError
         | Some pm \<Rightarrow>
             Inr (replace_global (host_then proxyHostname pm)
                    (\<lambda>w. originHostname @ drop (length proxyHostname) w) text))
      else Inr (rewriteText text proxyHostname originHostname))"

text \<open>The second replacement of \<open>replaceResponseText\<close>, of the other GitHub hostname.\<close>

definition otherHost :: "string \<Rightarrow> string" where
  "otherHost proxyHostname =
     (if proxyHostname = ''api.github.com'' then ''github.com'' else ''api.github.com'')"

definition replaceResponseText ::
  "engine \<Rightarrow> string \<Rightarrow> string \<Rightarrow> string option \<Rightarrow> string \<Rightarrow> string option \<Rightarrow> fault + string"
  where
  "replaceResponseText rx text proxyHostname pathnameRegex originHostname baseHostname =
     (case replaceProxyHost rx text proxyHostname pathnameRegex originHostname of
        Inl e \<Rightarrow> Inl e
      | Inr text1 \<Rightarrow>
          Inr (if baseHostname = Some ''github.com''
               then rewriteText text1 (otherHost proxyHostname) originHostname
               else text1))"

section \<open>The handler\<close>

text \<open>\<open>newResponseHeaders.get("content-type") || ""\<close> and the test on it.\<close>

definition contentType :: "headers \<Rightarrow> string" where
  "contentType h = (case h ''content-type'' of None \<Rightarrow> [] | Some v \<Rightarrow> v)"

definition textual :: "string \<Rightarrow> bool" where
  "textual ct = (includes_str ct ''text/'' \<or> includes_str ct ''application/json'')"

text \<open>The part of \<open>fetch\<close> that follows \<open>await fetch(newRequest)\<close>.\<close>

definition respond ::
  "engine \<Rightarrow> env \<Rightarrow> string \<Rightarrow> string \<Rightarrow> upstream_response \<Rightarrow> fault + response" where
  "respond rx env actualProxyHost originHostname originalResponse =
     (let newResponseHeaders =
            setResponseHeaders originalResponse actualProxyHost originHostname (DEBUG env)
      in if textual (contentType newResponseHeaders) then
           (case replaceResponseText rx (up_body originalResponse) actualProxyHost
                   (PATHNAME_REGEX env) originHostname (PROXY_HOSTNAME env) of
              Inl e \<Rightarrow> Inl e
            | Inr text \<Rightarrow>
                Inr \<lparr>res_status = up_status originalResponse,
                     res_headers = newResponseHeaders, res_body = Text text\<rparr>)
         else
           Inr \<lparr>res_status = up_status originalResponse,
                res_headers = newResponseHeaders,
                res_body = Stream (up_body originalResponse)\<rparr>)"

text \<open>What \<open>fetch\<close> returns: the proxied response, the nginx page, the redirect to
  \<open>URL302\<close>, or the 500 of the \<open>catch\<close> block.\<close>

datatype outcome = Proxied response | Fallback | Redirect string | InternalServerError

text \<open>
  The built-in functions on URLs are parameters of the handler: \<open>retarget\<close> is what the
  setters \<open>url.host = host\<close> and \<open>url.protocol = protocol\<close> make of a URL (a setter leaves
  the URL as it is when it cannot take the value), and \<open>redirects\<close> tells whether
  \<open>Response.redirect\<close> takes a URL, which throws on one that it cannot parse.
\<close>

record web =
  retarget :: "url \<Rightarrow> string \<Rightarrow> string \<Rightarrow> url"
  redirects :: "string \<Rightarrow> bool"

text \<open>The handler.  The upstream is a parameter: \<open>None\<close> is a \<open>fetch\<close> that throws.  Past
  the condition \<open>PROXY_HOSTNAME\<close> is set.  The line that \<open>logError\<close> prints is not part of
  the outcome.\<close>

definition fetch ::
  "engine \<Rightarrow> (request \<Rightarrow> upstream_response option) \<Rightarrow> web \<Rightarrow> env \<Rightarrow> request \<Rightarrow> outcome"
  where
  "fetch rx upstream web env request =
     (let url = req_url request; originHostname = url_hostname url in
      case invalid rx env request of
        Inl e \<Rightarrow> InternalServerError
      | Inr True \<Rightarrow>
          (if truthy (URL302 env) then
             (if redirects web (the (URL302 env)) then Redirect (the (URL302 env))
              else InternalServerError)
           else Fallback)
      | Inr False \<Rightarrow>
          (let actualProxyHost =
                 getGitHubProxyHost (the (PROXY_HOSTNAME env)) (url_pathname url);
               url' = retarget web url actualProxyHost
                        (case PROXY_PROTOCOL env of None \<Rightarrow> ''https'' | Some p \<Rightarrow> p);
               newRequest = createNewRequest request url' actualProxyHost originHostname
           in case upstream newRequest of
                None \<Rightarrow> InternalServerError
              | Some originalResponse \<Rightarrow>
                  (case respond rx env actualProxyHost originHostname originalResponse of
                     Inl e \<Rightarrow> InternalServerError
                   | Inr r \<Rightarrow> Proxied r)))"

section \<open>Vocabulary of the specification\<close>

text \<open>A hostname: letters, digits, hyphens and dots, with a letter or digit first and
  last.\<close>

definition is_alnum :: "char \<Rightarrow> bool" where
  "is_alnum c =
     ((48 \<le> code c \<and> code c \<le> 57) \<or> (65 \<le> code c \<and> code c \<le> 90)
      \<or> (97 \<le> code c \<and> code c \<le> 122))"

definition hostname_char :: "char \<Rightarrow> bool" where
  "hostname_char c = (is_alnum c \<or> c = CHR ''-'' \<or> c = CHR ''.'')"

definition is_hostname :: "string \<Rightarrow> bool" where
  "is_hostname h =
     (h \<noteq> [] \<and> list_all hostname_char h \<and> is_alnum (hd h) \<and> is_alnum (last h))"

text \<open>\<open>w\<close> has the length of the hostname and its characters wherever the hostname has
  a character other than a dot.\<close>

definition agrees_off_dots :: "string \<Rightarrow> string \<Rightarrow> bool" where
  "agrees_off_dots host w = list_all2 (\<lambda>p c. p = CHR ''.'' \<or> c = p) host w"

text \<open>A whole-word occurrence of the hostname itself that is not preceded by a dot begins at
  the position between \<open>pre\<close> and \<open>post\<close>.\<close>

definition literal_at :: "string \<Rightarrow> string \<Rightarrow> string \<Rightarrow> bool" where
  "literal_at host pre post =
     (prefix host post \<and> not_after_dot pre \<and> word_boundary pre post
      \<and> word_boundary (pre @ host) (drop (length host) post))"

text \<open>Every match that the scan found is the hostname itself.\<close>

definition literal_matches :: "string \<Rightarrow> piece list \<Rightarrow> bool" where
  "literal_matches host ps =
     list_all (\<lambda>p. case p of Kept c \<Rightarrow> True | Matched w \<Rightarrow> w = host) ps"

text \<open>In the text that has \<open>to\<close> in the place of every matched piece, no match of the pattern
  of \<open>to\<close> begins at a character that was copied; \<open>pre\<close> is the rewritten text before
  the pieces.\<close>

fun no_new_match :: "string \<Rightarrow> string \<Rightarrow> piece list \<Rightarrow> bool" where
  "no_new_match to pre [] = True"
| "no_new_match to pre (Kept c # ps) =
     (host_match to pre (c # assemble (\<lambda>w. to) ps) = None \<and> no_new_match to (pre @ [c]) ps)"
| "no_new_match to pre (Matched w # ps) = no_new_match to (pre @ to) ps"

text \<open>The hypothesis of the round trip as the specification words it: every occurrence of
  the hostname in the text is a whole word and not preceded by a dot.\<close>

definition only_whole_words :: "string \<Rightarrow> string \<Rightarrow> bool" where
  "only_whole_words host s =
     list_all (\<lambda>i. \<not> startsWith (drop i s) host \<or> literal_at host (take i s) (drop i s))
       [0..<Suc (length s)]"

text \<open>The pieces are a scan by \<open>m\<close> of their own text, and the pieces of the rewritten
  text.\<close>

fun scan_of :: "matcher \<Rightarrow> string \<Rightarrow> piece list \<Rightarrow> bool" where
  "scan_of m pre [] = True"
| "scan_of m pre (Kept c # ps) = scan_of m (pre @ [c]) ps"
| "scan_of m pre (Matched w # ps) =
     (m pre (w @ srcs ps) = Some (length w) \<and> scan_of m (pre @ w) ps)"

fun relabel :: "string \<Rightarrow> piece \<Rightarrow> piece" where
  "relabel to (Kept c) = Kept c"
| "relabel to (Matched w) = Matched to"

text \<open>
  The conditions of the access check in the words of the specification.  A pattern matches
  a string when it compiles and \<open>test\<close> is true.  The user-agent of a request is the
  lower-cased value of its header, and the empty string when the header is missing
  (specification, 4.1); the client IP and the region are the strings that the handler
  tests.
\<close>

definition matches :: "engine \<Rightarrow> string \<Rightarrow> string \<Rightarrow> bool" where
  "matches rx p s = (case rx p of None \<Rightarrow> False | Some m \<Rightarrow> search m s)"

definition when_configured :: "string option \<Rightarrow> (string \<Rightarrow> bool) \<Rightarrow> bool" where
  "when_configured v P = (case v of None \<Rightarrow> True | Some p \<Rightarrow> p = [] \<or> P p)"

definition user_agent :: "request \<Rightarrow> string" where
  "user_agent request =
     (case req_headers request ''user-agent'' of None \<Rightarrow> [] | Some ua \<Rightarrow> toLowerCase ua)"

definition passes_all :: "engine \<Rightarrow> env \<Rightarrow> request \<Rightarrow> bool" where
  "passes_all rx env request =
     (truthy (PROXY_HOSTNAME env)
      \<and> when_configured (PATHNAME_REGEX env)
          (\<lambda>p. matches rx p (url_pathname (req_url request)))
      \<and> when_configured (UA_WHITELIST_REGEX env) (\<lambda>p. matches rx p (user_agent request))
      \<and> when_configured (UA_BLACKLIST_REGEX env) (\<lambda>p. \<not> matches rx p (user_agent request))
      \<and> when_configured (IP_WHITELIST_REGEX env)
          (\<lambda>p. matches rx p (header_string request ''cf-connecting-ip''))
      \<and> when_configured (IP_BLACKLIST_REGEX env)
          (\<lambda>p. \<not> matches rx p (header_string request ''cf-connecting-ip''))
      \<and> when_configured (REGION_WHITELIST_REGEX env)
          (\<lambda>p. matches rx p (header_string request ''cf-ipcountry''))
      \<and> when_configured (REGION_BLACKLIST_REGEX env)
          (\<lambda>p. \<not> matches rx p (header_string request ''cf-ipcountry'')))"


section \<open>Concrete inputs\<close>

text \<open>
  A RegExp engine for the patterns that are a literal text of word characters, slashes,
  hyphens and blanks, with an optional \<open>^\<close> before and an optional \<open>$\<close> after it.  On these
  it is RegExp; it reports every other pattern as an error, which RegExp does not, and
  serves to run the handler where such patterns are configured.
\<close>

definition plain_char :: "char \<Rightarrow> bool" where
  "plain_char c = (is_word_char c \<or> c = CHR ''/'' \<or> c = CHR ''-'' \<or> c = CHR '' '')"

definition literal_matcher :: "bool \<Rightarrow> string \<Rightarrow> bool \<Rightarrow> matcher" where
  "literal_matcher at_start lit at_end pre post =
     (if (\<not> at_start \<or> pre = []) \<and> startsWith post lit
         \<and> (\<not> at_end \<or> length post = length lit)
      then Some (length lit) else None)"

definition literal_engine :: engine where
  "literal_engine p =
     (let a = startsWith p ''^'';
          q = (if a then tl p else p);
          e = (q \<noteq> [] \<and> last q = CHR ''$'');
          lit = (if e then butlast q else q)
      in if list_all plain_char lit then Some (literal_matcher a lit e) else None)"

text \<open>The configuration with \<open>PROXY_HOSTNAME\<close> alone, a \<open>GET\<close> request and a response with
  status 200.\<close>

definition proxy_env :: "string \<Rightarrow> env" where
  "proxy_env h =
     \<lparr>PROXY_HOSTNAME = Some h, PROXY_PROTOCOL = None, PATHNAME_REGEX = None,
      UA_WHITELIST_REGEX = None, UA_BLACKLIST_REGEX = None, URL302 = None,
      IP_WHITELIST_REGEX = None, IP_BLACKLIST_REGEX = None,
      REGION_WHITELIST_REGEX = None, REGION_BLACKLIST_REGEX = None, DEBUG = None\<rparr>"

definition get_request :: "string \<Rightarrow> string \<Rightarrow> headers \<Rightarrow> request" where
  "get_request h path hs =
     \<lparr>req_url = \<lparr>url_protocol = ''https'', url_hostname = h, url_pathname = path,
                 url_search = []\<rparr>,
      req_method = ''GET'', req_headers = hs, req_body = []\<rparr>"

definition ok_response :: "headers \<Rightarrow> string \<Rightarrow> upstream_response" where
  "ok_response hs b = \<lparr>up_status = 200, up_headers = hs, up_body = b\<rparr>"

text \<open>The URL functions where they are needed below: the setters on a hostname and the
  scheme \<open>https\<close>, both of which they take, and \<open>Response.redirect\<close> on an absolute
  \<open>http\<close> or \<open>https\<close> URL.\<close>

definition plain_web :: web where
  "plain_web =
     \<lparr>retarget = (\<lambda>u host protocol. u\<lparr>url_hostname := host, url_protocol := protocol\<rparr>),
      redirects = (\<lambda>u. startsWith u ''http://'' \<or> startsWith u ''https://'')\<rparr>"

section \<open>Properties of host resolution\<close>

lemma startsWith_prefix: "startsWith s p \<longleftrightarrow> prefix p s"
  unfolding startsWith_def
  by (metis append_eq_conv_conj prefix_def take_is_prefix)

lemma isGitHubAPIPath_prefix:
  "isGitHubAPIPath pathname \<longleftrightarrow> (\<exists>p \<in> set apiPaths. prefix p pathname)"
  by (simp add: isGitHubAPIPath_def list_ex_iff startsWith_prefix)

text \<open>
  Claim C5.  Host resolution is a function of the base hostname and the path alone: it
  yields \<open>api.github.com\<close> when the base hostname is \<open>github.com\<close> and one of the listed
  prefixes is a prefix of the raw path (compared character by character, so with the case
  of the letters), and the base hostname unchanged in every other case.  So the result is
  \<open>api.github.com\<close> exactly in that case, but for a base hostname that is
  \<open>api.github.com\<close> already, which is returned as it is.
\<close>

theorem getGitHubProxyHost_resolves:
  "(baseHostname = ''github.com'' \<and> (\<exists>p \<in> set apiPaths. prefix p pathname)
      \<longrightarrow> getGitHubProxyHost baseHostname pathname = ''api.github.com'')
   \<and> (\<not> (baseHostname = ''github.com'' \<and> (\<exists>p \<in> set apiPaths. prefix p pathname))
      \<longrightarrow> getGitHubProxyHost baseHostname pathname = baseHostname)
   \<and> (baseHostname \<noteq> ''api.github.com''
      \<longrightarrow> (getGitHubProxyHost baseHostname pathname = ''api.github.com'')
          = (baseHostname = ''github.com'' \<and> (\<exists>p \<in> set apiPaths. prefix p pathname)))"
  by (auto simp: getGitHubProxyHost_def isGitHubAPIPath_prefix)

theorem getGitHubProxyHost_resolves_witness:
  "(\<exists>p \<in> set apiPaths. prefix p ''/repos/octocat/hello'')
   \<and> getGitHubProxyHost ''github.com'' ''/repos/octocat/hello'' = ''api.github.com''
   \<and> \<not> (\<exists>p \<in> set apiPaths. prefix p ''/Repos/octocat/hello'')
   \<and> getGitHubProxyHost ''github.com'' ''/Repos/octocat/hello'' = ''github.com''
   \<and> getGitHubProxyHost ''example.org'' ''/repos/octocat/hello'' = ''example.org''"
proof -
  have a: "\<exists>p \<in> set apiPaths. prefix p ''/repos/octocat/hello''"
    by (simp add: apiPaths_def)
  have b: "\<not> (\<exists>p \<in> set apiPaths. prefix p ''/Repos/octocat/hello'')"
    by (simp add: apiPaths_def)
  show ?thesis
    using a b
      getGitHubProxyHost_resolves [of "''github.com''" "''/repos/octocat/hello''"]
      getGitHubProxyHost_resolves [of "''github.com''" "''/Repos/octocat/hello''"]
      getGitHubProxyHost_resolves [of "''example.org''" "''/repos/octocat/hello''"]
    by simp
qed

section \<open>Properties of the scan\<close>

lemma srcs_Cons: "srcs (p # ps) = src p @ srcs ps"
  by (simp add: srcs_def)

lemma srcs_Nil: "srcs [] = []"
  by (simp add: srcs_def)

lemma srcs_append: "srcs (ps @ qs) = srcs ps @ srcs qs"
  by (simp add: srcs_def)

lemma srcs_segments: "srcs (segments m pre post) = post"
proof (induction m pre post rule: segments.induct)
  case (1 m pre)
  then show ?case by (simp add: srcs_def split: option.splits)
next
  case (2 m pre c cs)
  then show ?case
    by (auto simp: srcs_Cons split: option.splits)
qed

lemma segments_Matched:
  "segments m pre post = ps1 @ Matched w # ps2 \<Longrightarrow>
     \<exists>n. m (pre @ srcs ps1) (w @ srcs ps2) = Some n \<and> w = take n (w @ srcs ps2)"
proof (induction m pre post arbitrary: ps1 rule: segments.induct)
  case (1 m pre)
  then show ?case
    by (auto simp: srcs_def Cons_eq_append_conv append_eq_Cons_conv split: option.splits)
next
  case (2 m pre c cs)
  show ?case
  proof (cases "m pre (c # cs)")
    case None
    with 2(4) obtain ps1' where ps1: "ps1 = Kept c # ps1'"
      and rest: "segments m (pre @ [c]) cs = ps1' @ Matched w # ps2"
      by (auto simp: append_eq_Cons_conv Cons_eq_append_conv)
    from 2(1)[OF None rest] show ?thesis
      by (simp add: ps1 srcs_Cons)
  next
    case (Some n)
    show ?thesis
    proof (cases "n = 0")
      case True
      with Some 2(4) have eq: "Matched [] # Kept c # segments m (pre @ [c]) cs = ps1 @ Matched w # ps2"
        by simp
      show ?thesis
      proof (cases ps1)
        case Nil
        with eq have w: "w = []" and ps2: "ps2 = Kept c # segments m (pre @ [c]) cs" by auto
        have "srcs ps2 = c # cs" by (simp add: ps2 srcs_Cons srcs_segments)
        with Some True w Nil show ?thesis by (simp add: srcs_Nil)
      next
        case (Cons p ps1')
        with eq have p: "p = Matched []" and eq': "Kept c # segments m (pre @ [c]) cs = ps1' @ Matched w # ps2"
          by auto
        then obtain ps1'' where ps1': "ps1' = Kept c # ps1''"
          and rest: "segments m (pre @ [c]) cs = ps1'' @ Matched w # ps2"
          by (auto simp: append_eq_Cons_conv Cons_eq_append_conv)
        from 2(2)[OF Some True rest] show ?thesis
          by (simp add: Cons p ps1' srcs_Cons)
      qed
    next
      case False
      with Some 2(4) have eq: "Matched (take n (c # cs)) # segments m (pre @ take n (c # cs)) (drop n (c # cs)) = ps1 @ Matched w # ps2"
        by simp
      show ?thesis
      proof (cases ps1)
        case Nil
        with eq have w: "w = take n (c # cs)" and ps2: "ps2 = segments m (pre @ take n (c # cs)) (drop n (c # cs))" by auto
        have "srcs ps2 = drop n (c # cs)" by (simp add: ps2 srcs_segments)
        then have "w @ srcs ps2 = c # cs" using w by simp
        with Some w Nil show ?thesis by (simp add: srcs_Nil)
      next
        case (Cons p ps1')
        with eq have p: "p = Matched (take n (c # cs))" and rest: "segments m (pre @ take n (c # cs)) (drop n (c # cs)) = ps1' @ Matched w # ps2"
          by auto
        from 2(3)[OF Some False rest] show ?thesis
          by (simp add: Cons p srcs_Cons)
      qed
    qed
  qed
qed

lemma segments_Kept:
  "segments m pre post = ps1 @ Kept c # ps2 \<Longrightarrow>
     m (pre @ srcs ps1) (c # srcs ps2) = None \<or> m (pre @ srcs ps1) (c # srcs ps2) = Some 0"
proof (induction m pre post arbitrary: ps1 rule: segments.induct)
  case (1 m pre)
  then show ?case
    by (auto simp: Cons_eq_append_conv append_eq_Cons_conv split: option.splits)
next
  case (2 m pre d cs)
  show ?case
  proof (cases "m pre (d # cs)")
    case None
    with 2(4) have eq: "Kept d # segments m (pre @ [d]) cs = ps1 @ Kept c # ps2" by simp
    show ?thesis
    proof (cases ps1)
      case Nil
      with eq have "c = d" and "ps2 = segments m (pre @ [d]) cs" by auto
      with None Nil show ?thesis by (simp add: srcs_Nil srcs_segments)
    next
      case (Cons p ps1')
      with eq have p: "p = Kept d" and rest: "segments m (pre @ [d]) cs = ps1' @ Kept c # ps2" by auto
      from 2(1)[OF None rest] show ?thesis by (simp add: Cons p srcs_Cons)
    qed
  next
    case (Some n)
    show ?thesis
    proof (cases "n = 0")
      case True
      with Some 2(4) have eq: "Matched [] # Kept d # segments m (pre @ [d]) cs = ps1 @ Kept c # ps2"
        by simp
      then obtain ps1' where ps1: "ps1 = Matched [] # ps1'" and eq': "Kept d # segments m (pre @ [d]) cs = ps1' @ Kept c # ps2"
        by (cases ps1) auto
      show ?thesis
      proof (cases ps1')
        case Nil
        with eq' have "c = d" and "ps2 = segments m (pre @ [d]) cs" by auto
        with Some True Nil ps1 show ?thesis by (simp add: srcs_Nil srcs_Cons srcs_segments)
      next
        case (Cons p ps1'')
        with eq' have p: "p = Kept d" and rest: "segments m (pre @ [d]) cs = ps1'' @ Kept c # ps2" by auto
        from 2(2)[OF Some True rest] show ?thesis by (simp add: ps1 Cons p srcs_Cons)
      qed
    next
      case False
      with Some 2(4) have eq: "Matched (take n (d # cs)) # segments m (pre @ take n (d # cs)) (drop n (d # cs)) = ps1 @ Kept c # ps2"
        by simp
      then obtain ps1' where ps1: "ps1 = Matched (take n (d # cs)) # ps1'"
        and rest: "segments m (pre @ take n (d # cs)) (drop n (d # cs)) = ps1' @ Kept c # ps2"
        by (cases ps1) auto
      from 2(3)[OF Some False rest] show ?thesis by (simp add: ps1 srcs_Cons)
    qed
  qed
qed

section \<open>Properties of the substitution\<close>

lemma atom_matches_self: "hostname_char p \<Longrightarrow> atom_matches p p"
  by (auto simp: atom_matches_def is_line_terminator_def code_def)

lemma hostname_char_not_terminator: "hostname_char c \<Longrightarrow> \<not> is_line_terminator c"
  by (auto simp: hostname_char_def is_alnum_def is_line_terminator_def code_def)

lemma atoms_match_self: "list_all hostname_char h \<Longrightarrow> list_all2 atom_matches h h"
  by (induction h) (auto simp: atom_matches_self)

lemma host_match_Some:
  "host_match host pre post = Some n \<longleftrightarrow>
     n = length host \<and> not_after_dot pre \<and> word_boundary pre post \<and> n \<le> length post
     \<and> list_all2 atom_matches host (take n post)
     \<and> word_boundary (pre @ take n post) (drop n post)"
  by (auto simp: host_match_def Let_def)

lemma host_match_literal:
  assumes "list_all hostname_char host" "literal_at host pre post"
  shows "host_match host pre post = Some (length host)"
proof -
  from assms(2) obtain rest where post: "post = host @ rest"
    by (auto simp: literal_at_def prefix_def)
  with assms show ?thesis
    by (simp add: host_match_Some literal_at_def atoms_match_self)
qed

lemma atoms_agree: "list_all2 atom_matches host w \<Longrightarrow> agrees_off_dots host w"
  unfolding agrees_off_dots_def
  by (erule list_all2_mono) (auto simp: atom_matches_def split: if_splits)

lemma is_alnum_word: "is_alnum c \<Longrightarrow> is_word_char c"
  by (auto simp: is_alnum_def is_word_char_def)

lemma is_alnum_not_dot: "is_alnum c \<Longrightarrow> c \<noteq> CHR ''.''"
  by (auto simp: is_alnum_def code_def)

lemma hostname_ends:
  assumes "is_hostname h"
  shows "word_after (h @ xs)" "word_before (pre @ h)" "not_after_dot (pre @ h)"
  using assms
  by (auto simp: is_hostname_def word_after_def word_before_def not_after_dot_def
      is_alnum_word dest: is_alnum_not_dot)

lemma list_all2_last:
  "list_all2 P xs ys \<Longrightarrow> xs \<noteq> [] \<Longrightarrow> P (last xs) (last ys)"
  by (induction rule: list_all2_induct) (auto simp: list_all2_Nil)

lemma agrees_ends:
  assumes "is_hostname h" and "agrees_off_dots h w"
  shows "word_after (w @ xs)" and "word_before (pre @ w)"
proof -
  from assms(1) have ne: "h \<noteq> []" and first: "is_alnum (hd h)" and final: "is_alnum (last h)"
    by (simp_all add: is_hostname_def)
  from assms(2) have all2: "list_all2 (\<lambda>p c. p = CHR ''.'' \<or> c = p) h w"
    by (simp add: agrees_off_dots_def)
  with ne have wne: "w \<noteq> []" by (auto simp: list_all2_Nil2)
  from ne wne all2 have "hd h = CHR ''.'' \<or> hd w = hd h"
    by (cases h; cases w) auto
  with first have "hd w = hd h" by (auto dest: is_alnum_not_dot)
  with first wne show "word_after (w @ xs)" by (simp add: word_after_def is_alnum_word)
  from list_all2_last [OF all2 ne] final have "last w = last h"
    by (auto dest: is_alnum_not_dot)
  with final wne show "word_before (pre @ w)" by (simp add: word_before_def is_alnum_word)
qed

text \<open>
  Claim C1, as amended.  For hostnames \<open>from\<close> and \<open>to\<close>, the scan splits the text into
  pieces, and the result is the text with every matched piece replaced by \<open>to\<close> and every
  other character copied.  A matched piece agrees with \<open>from\<close> wherever \<open>from\<close> has a
  character other than a dot, is preceded by neither a dot nor a word character (one of
  \<open>[A-Za-z0-9_]\<close>) and followed by no word character; any other character, a hyphen too,
  may stand before or after it.  No copied character begins a whole-word occurrence of
  \<open>from\<close> itself that is not preceded by a dot.
\<close>

theorem rewriteText_pieces:
  assumes "is_hostname from" and "is_hostname to"
  shows "srcs (segments (host_match from) [] text) = text
     \<and> rewriteText text from to = assemble (\<lambda>w. to) (segments (host_match from) [] text)
     \<and> (\<forall>ps1 w ps2. segments (host_match from) [] text = ps1 @ Matched w # ps2 \<longrightarrow>
           agrees_off_dots from w \<and> not_after_dot (srcs ps1)
           \<and> \<not> word_before (srcs ps1) \<and> \<not> word_after (srcs ps2))
     \<and> (\<forall>ps1 c ps2. segments (host_match from) [] text = ps1 @ Kept c # ps2 \<longrightarrow>
           \<not> literal_at from (srcs ps1) (c # srcs ps2))"
proof (intro conjI allI impI)
  show "srcs (segments (host_match from) [] text) = text"
    by (rule srcs_segments)
  show "rewriteText text from to = assemble (\<lambda>w. to) (segments (host_match from) [] text)"
    by (simp add: rewriteText_def replace_global_def)
next
  fix ps1 w ps2
  assume eq: "segments (host_match from) [] text = ps1 @ Matched w # ps2"
  from segments_Matched[OF eq] obtain n
    where m: "host_match from (srcs ps1) (w @ srcs ps2) = Some n"
      and w: "w = take n (w @ srcs ps2)"
    by auto
  from m have n: "n = length from" and nd: "not_after_dot (srcs ps1)"
    and wb1: "word_boundary (srcs ps1) (w @ srcs ps2)"
    and le: "n \<le> length (w @ srcs ps2)"
    and at: "list_all2 atom_matches from (take n (w @ srcs ps2))"
    and wb2: "word_boundary (srcs ps1 @ take n (w @ srcs ps2)) (drop n (w @ srcs ps2))"
    unfolding host_match_Some by blast+
  from w le have len: "length w = n" by (metis length_take min.absorb2)
  from at w have "list_all2 atom_matches from w" by simp
  then show ag: "agrees_off_dots from w" by (rule atoms_agree)
  show "not_after_dot (srcs ps1)" by (rule nd)
  from wb1 agrees_ends(1) [OF assms(1) ag] show "\<not> word_before (srcs ps1)"
    by (simp add: word_boundary_def)
  from wb2 len have "word_boundary (srcs ps1 @ w) (srcs ps2)" by simp
  with agrees_ends(2) [OF assms(1) ag] show "\<not> word_after (srcs ps2)"
    by (simp add: word_boundary_def)
next
  fix ps1 c ps2
  assume eq: "segments (host_match from) [] text = ps1 @ Kept c # ps2"
  from assms(1) have ne: "from \<noteq> []" and hc: "list_all hostname_char from"
    by (simp_all add: is_hostname_def)
  show "\<not> literal_at from (srcs ps1) (c # srcs ps2)"
  proof
    assume "literal_at from (srcs ps1) (c # srcs ps2)"
    from host_match_literal[OF hc this] segments_Kept[OF eq] ne show False by simp
  qed
qed

theorem rewriteText_pieces_witness:
  "is_hostname ''github.com'' \<and> is_hostname ''x.example''
   \<and> rewriteText ''visit api.github.com and github.com'' ''github.com'' ''x.example''
       = ''visit api.github.com and x.example''
   \<and> segments (host_match ''github.com'') [] ''see github.com''
       = map Kept ''see '' @ Matched ''github.com'' # []
   \<and> agrees_off_dots ''github.com'' ''github.com''
   \<and> \<not> word_before (srcs (map Kept ''see ''))"
proof -
  have h1: "is_hostname ''github.com''" by code_simp
  have h2: "is_hostname ''x.example''" by code_simp
  have s: "segments (host_match ''github.com'') [] ''see github.com''
       = map Kept ''see '' @ Matched ''github.com'' # []"
    by code_simp
  have r: "assemble (\<lambda>w. ''x.example'')
      (segments (host_match ''github.com'') [] ''visit api.github.com and github.com'')
      = ''visit api.github.com and x.example''"
    by code_simp
  from rewriteText_pieces [OF h1 h2, of "''see github.com''"] s
  have a: "agrees_off_dots ''github.com'' ''github.com''
      \<and> \<not> word_before (srcs (map Kept ''see ''))"
    by blast
  from rewriteText_pieces [OF h1 h2, of "''visit api.github.com and github.com''"] r
  have b: "rewriteText ''visit api.github.com and github.com'' ''github.com'' ''x.example''
       = ''visit api.github.com and x.example''"
    by simp
  from h1 h2 s a b show ?thesis by blast
qed

text \<open>
  The claim C1 as it stands fails in two ways.  A hyphen is a word boundary, so the suffix
  \<open>github.com\<close> of \<open>api-github.com\<close>, whose first label is the longer \<open>api-github\<close>, is
  rewritten.  And the dots of the hostname are spliced into the pattern unescaped, so
  \<open>githubXcom\<close>, which is not the hostname, is rewritten too.
\<close>

theorem rewriteText_counterexample:
  "rewriteText ''api-github.com'' ''github.com'' ''x.example'' = ''api-x.example''
   \<and> rewriteText ''githubXcom'' ''github.com'' ''x.example'' = ''x.example''"
  by code_simp

text \<open>The examples of the specification: a hostname after a word character or after a dot
  is left as it is.\<close>

lemma rewriteText_examples:
  "rewriteText ''notgithub.com'' ''github.com'' ''x.example'' = ''notgithub.com''"
  "rewriteText ''visit api.github.com and github.com'' ''github.com'' ''x.example''
     = ''visit api.github.com and x.example''"
  "rewriteText ''GitHub.com github.com'' ''github.com'' ''x.example'' = ''GitHub.com x.example''"
  by code_simp+

section \<open>The round trip\<close>

lemma assemble_Nil: "assemble rep [] = []"
  by (simp add: assemble_def)

lemma assemble_Cons: "assemble rep (p # ps) = render rep p @ assemble rep ps"
  by (simp add: assemble_def)

lemma host_match_length: "host_match host pre post = Some n \<Longrightarrow> n = length host \<and> n \<le> length post"
  by (simp add: host_match_Some)

lemma scan_of_segments:
  "host \<noteq> [] \<Longrightarrow> scan_of (host_match host) pre (segments (host_match host) pre post)"
proof (induction "host_match host" pre post rule: segments.induct)
  case (1 pre)
  then show ?case by (auto split: option.splits dest: host_match_length)
next
  case (2 pre c cs)
  show ?case
  proof (cases "host_match host pre (c # cs)")
    case None
    with 2 show ?thesis by simp
  next
    case (Some n)
    from host_match_length[OF Some] 2(4) have n: "n = length host" "n \<le> length (c # cs)" "n \<noteq> 0"
      by auto
    have len: "length (take n (c # cs)) = n" using n(2) by simp
    have "take n (c # cs) @ srcs (segments (host_match host) (pre @ take n (c # cs)) (drop n (c # cs))) = c # cs"
      by (simp only: srcs_segments append_take_drop_id)
    with Some n 2(3)[OF Some n(3) 2(4)] len show ?thesis
      by (simp del: take_Suc_Cons drop_Suc_Cons)
  qed
qed

lemma word_after_pieces:
  assumes "is_hostname a" "is_hostname b" "literal_matches a ps"
  shows "word_after (assemble (\<lambda>w. b) ps) = word_after (srcs ps)"
proof (cases ps)
  case Nil
  then show ?thesis by (simp add: assemble_Nil srcs_Nil)
next
  case (Cons p ps')
  show ?thesis
  proof (cases p)
    case (Kept c)
    with Cons show ?thesis by (simp add: assemble_Cons srcs_Cons word_after_def)
  next
    case (Matched w)
    with Cons assms(3) have "w = a" by (simp add: literal_matches_def)
    with Cons Matched hostname_ends(1)[OF assms(1)] hostname_ends(1)[OF assms(2)]
    show ?thesis by (simp add: assemble_Cons srcs_Cons)
  qed
qed

lemma rescan:
  assumes a: "is_hostname a" and b: "is_hostname b"
  shows "scan_of (host_match a) pre ps \<Longrightarrow> literal_matches a ps \<Longrightarrow> no_new_match b pre' ps \<Longrightarrow>
         word_before pre' = word_before pre \<Longrightarrow> not_after_dot pre' = not_after_dot pre \<Longrightarrow>
         segments (host_match b) pre' (assemble (\<lambda>w. b) ps) = map (relabel b) ps"
proof (induction ps arbitrary: pre pre')
  case Nil
  from b have "b \<noteq> []" by (simp add: is_hostname_def)
  then have "host_match b pre' [] = None"
    by (cases "host_match b pre' []") (auto dest: host_match_length)
  then show ?case by (simp add: assemble_Nil)
next
  case (Cons p ps)
  show ?case
  proof (cases p)
    case (Kept c)
    from Cons.prems Kept have none: "host_match b pre' (c # assemble (\<lambda>w. b) ps) = None"
      and nn: "no_new_match b (pre' @ [c]) ps" and sc: "scan_of (host_match a) (pre @ [c]) ps"
      and lm: "literal_matches a ps"
      by (simp_all add: literal_matches_def)
    have "segments (host_match b) (pre' @ [c]) (assemble (\<lambda>w. b) ps) = map (relabel b) ps"
      by (rule Cons.IH[OF sc lm nn]) (simp_all add: word_before_def not_after_dot_def)
    with none Kept show ?thesis by (simp add: assemble_Cons)
  next
    case (Matched w)
    with Cons.prems have w: "w = a" and lm: "literal_matches a ps"
      by (simp_all add: literal_matches_def)
    from Cons.prems Matched w have ma: "host_match a pre (a @ srcs ps) = Some (length a)"
      and sc: "scan_of (host_match a) (pre @ a) ps"
      and nn: "no_new_match b (pre' @ b) ps"
      by simp_all
    from ma have nd: "not_after_dot pre" and wb1: "word_boundary pre (a @ srcs ps)"
      and wb2: "word_boundary (pre @ a) (srcs ps)"
      unfolding host_match_Some by simp_all
    from wb1 hostname_ends(1)[OF a] have nb: "\<not> word_before pre" by (simp add: word_boundary_def)
    from wb2 hostname_ends(2)[OF a] have na: "\<not> word_after (srcs ps)" by (simp add: word_boundary_def)
    with word_after_pieces[OF a b lm] have na': "\<not> word_after (assemble (\<lambda>w. b) ps)" by simp
    from b have hc: "list_all hostname_char b" and ne: "b \<noteq> []" by (simp_all add: is_hostname_def)
    have mb: "host_match b pre' (b @ assemble (\<lambda>w. b) ps) = Some (length b)"
      unfolding host_match_Some
      using nd nb na' Cons.prems(4,5) hostname_ends(1,2)[OF b] atoms_match_self[OF hc]
      by (simp add: word_boundary_def)
    have ih: "segments (host_match b) (pre' @ b) (assemble (\<lambda>w. b) ps) = map (relabel b) ps"
      by (rule Cons.IH[OF sc lm nn])
        (simp_all add: hostname_ends(2,3)[OF a] hostname_ends(2,3)[OF b])
    from ne obtain x xs where bx: "b = x # xs" by (cases b) auto
    have "segments (host_match b) pre' ((x # xs) @ assemble (\<lambda>w. b) ps)
            = Matched (x # xs) # segments (host_match b) (pre' @ x # xs) (assemble (\<lambda>w. b) ps)"
      using mb unfolding bx by simp
    with ih Matched show ?thesis by (simp add: assemble_Cons bx)
  qed
qed

lemma assemble_relabel:
  "literal_matches a ps \<Longrightarrow> assemble (\<lambda>w. a) (map (relabel b) ps) = srcs ps"
proof (induction ps)
  case Nil
  then show ?case by (simp add: assemble_Nil srcs_Nil)
next
  case (Cons p ps)
  then show ?case
    by (cases p) (simp_all add: assemble_Cons srcs_Cons literal_matches_def)
qed

text \<open>
  Claim C6, as amended.  Let \<open>a\<close> and \<open>b\<close> be hostnames.  If every match that the scan
  for \<open>a\<close> finds in \<open>s\<close> is \<open>a\<close> itself, and in the rewritten text no match of the pattern
  of \<open>b\<close> begins at a character copied from \<open>s\<close>, then rewriting \<open>s\<close> from \<open>a\<close> to \<open>b\<close> and the
  result from \<open>b\<close> to \<open>a\<close> gives \<open>s\<close> back.
\<close>

theorem rewriteText_round_trip:
  assumes "is_hostname a" and "is_hostname b"
    and "literal_matches a (segments (host_match a) [] s)"
    and "no_new_match b [] (segments (host_match a) [] s)"
  shows "rewriteText (rewriteText s a b) b a = s"
proof -
  let ?ps = "segments (host_match a) [] s"
  from assms(1) have "a \<noteq> []" by (simp add: is_hostname_def)
  then have sc: "scan_of (host_match a) [] ?ps" by (rule scan_of_segments)
  have "segments (host_match b) [] (assemble (\<lambda>w. b) ?ps) = map (relabel b) ?ps"
    by (rule rescan[OF assms(1,2) sc assms(3,4)]) simp_all
  then have "rewriteText (rewriteText s a b) b a = assemble (\<lambda>w. a) (map (relabel b) ?ps)"
    by (simp add: rewriteText_def replace_global_def)
  also have "\<dots> = srcs ?ps" by (rule assemble_relabel[OF assms(3)])
  also have "\<dots> = s" by (rule srcs_segments)
  finally show ?thesis .
qed

section \<open>The round trip, concretely\<close>

text \<open>The round trip on a text with the origin hostname in a URL and after a dot.\<close>

theorem rewriteText_round_trip_witness:
  "is_hostname ''proxy.dev'' \<and> is_hostname ''github.com''
   \<and> literal_matches ''proxy.dev''
        (segments (host_match ''proxy.dev'') [] ''see https://proxy.dev/x or api.proxy.dev'')
   \<and> no_new_match ''github.com'' []
        (segments (host_match ''proxy.dev'') [] ''see https://proxy.dev/x or api.proxy.dev'')
   \<and> rewriteText ''see https://proxy.dev/x or api.proxy.dev'' ''proxy.dev'' ''github.com''
        = ''see https://github.com/x or api.proxy.dev''
   \<and> rewriteText (rewriteText ''see https://proxy.dev/x or api.proxy.dev'' ''proxy.dev''
        ''github.com'') ''github.com'' ''proxy.dev''
        = ''see https://proxy.dev/x or api.proxy.dev''"
proof -
  have h1: "is_hostname ''proxy.dev''" by code_simp
  have h2: "is_hostname ''github.com''" by code_simp
  have h3: "literal_matches ''proxy.dev''
        (segments (host_match ''proxy.dev'') [] ''see https://proxy.dev/x or api.proxy.dev'')"
    by code_simp
  have h4: "no_new_match ''github.com'' []
        (segments (host_match ''proxy.dev'') [] ''see https://proxy.dev/x or api.proxy.dev'')"
    by code_simp
  have h5: "rewriteText ''see https://proxy.dev/x or api.proxy.dev'' ''proxy.dev'' ''github.com''
        = ''see https://github.com/x or api.proxy.dev''"
    by code_simp
  from h1 h2 h3 h4 h5 rewriteText_round_trip[OF h1 h2 h3 h4] show ?thesis by simp
qed

text \<open>
  The claim C6 as it stands fails in two ways.  The first text below has one occurrence of
  \<open>b.io\<close>, a whole word after a hyphen, and no occurrence of \<open>a.io-a.io\<close>; the rewritten
  text has that hostname twice, overlapping, and the way back replaces the first of the
  two.  The second text has the origin hostname once, in a URL, and no occurrence of
  \<open>github.com\<close>; on the way back the pattern of \<open>github.com\<close>, its dot unescaped, matches
  \<open>github/com\<close> as well.
\<close>

theorem rewriteText_round_trip_counterexample:
  "only_whole_words ''b.io'' ''a.io-b.io''
   \<and> \<not> includes_str ''a.io-b.io'' ''a.io-a.io''
   \<and> rewriteText ''a.io-b.io'' ''b.io'' ''a.io-a.io'' = ''a.io-a.io-a.io''
   \<and> rewriteText (rewriteText ''a.io-b.io'' ''b.io'' ''a.io-a.io'') ''a.io-a.io'' ''b.io''
        = ''b.io-a.io''
   \<and> only_whole_words ''proxy.dev'' ''https://proxy.dev/mirror/github/com/x''
   \<and> \<not> includes_str ''https://proxy.dev/mirror/github/com/x'' ''github.com''
   \<and> rewriteText (rewriteText ''https://proxy.dev/mirror/github/com/x'' ''proxy.dev''
        ''github.com'') ''github.com'' ''proxy.dev''
        = ''https://proxy.dev/mirror/proxy.dev/x''"
  by code_simp

section \<open>Properties of the access check\<close>





lemma fetch_rejected:
  "invalid rx env request = Inr True \<Longrightarrow>
     fetch rx upstream web env request
       = (if truthy (URL302 env) then
            (if redirects web (the (URL302 env)) then Redirect (the (URL302 env))
             else InternalServerError)
          else Fallback)"
  by (simp add: fetch_def Let_def)

lemma fetch_fault:
  "invalid rx env request = Inl e \<Longrightarrow> fetch rx upstream web env request = InternalServerError"
  by (simp add: fetch_def Let_def)

text \<open>
  Claim C2 does not hold of the code.  With a deny pattern for the user-agent configured,
  a request without the header has \<open>PROXY_HOSTNAME\<close> set and satisfies every configured
  filter in the words of the claim, its user-agent not matching the deny pattern; the
  condition throws the \<open>TypeError\<close> of claim C3 and the handler answers 500, where the
  upstream would have answered.  The same request with an empty user-agent header is
  proxied.
\<close>

theorem deny_filter_without_user_agent_faults:
  "passes_all literal_engine ((proxy_env ''github.com'')\<lparr>UA_BLACKLIST_REGEX := Some ''curl''\<rparr>)
       (get_request ''proxy.dev'' ''/'' Map.empty)
   \<and> invalid literal_engine ((proxy_env ''github.com'')\<lparr>UA_BLACKLIST_REGEX := Some ''curl''\<rparr>)
       (get_request ''proxy.dev'' ''/'' Map.empty) = Inl TypeError
   \<and> fetch literal_engine (\<lambda>r. Some (ok_response Map.empty ''ok'')) plain_web
       ((proxy_env ''github.com'')\<lparr>UA_BLACKLIST_REGEX := Some ''curl''\<rparr>)
       (get_request ''proxy.dev'' ''/'' Map.empty) = InternalServerError
   \<and> (case fetch literal_engine (\<lambda>r. Some (ok_response Map.empty ''ok'')) plain_web
              ((proxy_env ''github.com'')\<lparr>UA_BLACKLIST_REGEX := Some ''curl''\<rparr>)
              (get_request ''proxy.dev'' ''/'' [''user-agent'' \<mapsto> '''']) of
         Proxied r \<Rightarrow> Some (res_status r, res_body r)
       | _ \<Rightarrow> None)
       = Some (200, Stream ''ok'')"
proof -
  let ?env = "(proxy_env ''github.com'')\<lparr>UA_BLACKLIST_REGEX := Some ''curl''\<rparr>"
  let ?up = "\<lambda>r::request. Some (ok_response Map.empty ''ok'')"
  have a: "passes_all literal_engine ?env (get_request ''proxy.dev'' ''/'' Map.empty)"
    by code_simp
  have b: "invalid literal_engine ?env (get_request ''proxy.dev'' ''/'' Map.empty)
             = Inl TypeError"
    by code_simp
  have c: "fetch literal_engine ?up plain_web ?env (get_request ''proxy.dev'' ''/'' Map.empty)
             = InternalServerError"
    by (rule fetch_fault [OF b])
  have d: "(case fetch literal_engine ?up plain_web ?env
              (get_request ''proxy.dev'' ''/'' [''user-agent'' \<mapsto> '''']) of
         Proxied r \<Rightarrow> Some (res_status r, res_body r)
       | _ \<Rightarrow> None)
       = Some (200, Stream ''ok'')"
    by code_simp
  from a b c d show ?thesis by blast
qed

section \<open>Requests without a header\<close>

lemma test_user_agent_missing:
  "rx p = Some m \<Longrightarrow> req_headers request ''user-agent'' = None \<Longrightarrow>
     test_user_agent rx p request = Inl TypeError"
  by (simp add: test_user_agent_def)

text \<open>
  Claim C3 does not hold of the code.  With an allow pattern for the user-agent configured,
  a request without the header makes the condition throw a \<open>TypeError\<close>
  (\<open>toLowerCase\<close> of \<open>null\<close>), and the handler answers 500; the same request with an
  empty user-agent header is rejected with the fallback page.
\<close>

theorem missing_user_agent_faults:
  "invalid literal_engine ((proxy_env ''github.com'')\<lparr>UA_WHITELIST_REGEX := Some ''mozilla''\<rparr>)
       (get_request ''proxy.dev'' ''/'' Map.empty) = Inl TypeError
   \<and> fetch literal_engine (\<lambda>r. None) plain_web
       ((proxy_env ''github.com'')\<lparr>UA_WHITELIST_REGEX := Some ''mozilla''\<rparr>)
       (get_request ''proxy.dev'' ''/'' Map.empty) = InternalServerError
   \<and> fetch literal_engine (\<lambda>r. None) plain_web
       ((proxy_env ''github.com'')\<lparr>UA_WHITELIST_REGEX := Some ''mozilla''\<rparr>)
       (get_request ''proxy.dev'' ''/'' [''user-agent'' \<mapsto> '''']) = Fallback"
proof -
  let ?env = "(proxy_env ''github.com'')\<lparr>UA_WHITELIST_REGEX := Some ''mozilla''\<rparr>"
  have a: "invalid literal_engine ?env (get_request ''proxy.dev'' ''/'' Map.empty)
             = Inl TypeError"
    by code_simp
  have b: "invalid literal_engine ?env
             (get_request ''proxy.dev'' ''/'' [''user-agent'' \<mapsto> '''']) = Inr True"
    by code_simp
  have c: "URL302 ?env = None" by (simp add: proxy_env_def)
  from a have "fetch literal_engine (\<lambda>r. None) plain_web ?env
      (get_request ''proxy.dev'' ''/'' Map.empty) = InternalServerError"
    by (simp add: fetch_def Let_def)
  moreover from fetch_rejected [OF b] c have "fetch literal_engine (\<lambda>r. None) plain_web ?env
      (get_request ''proxy.dev'' ''/'' [''user-agent'' \<mapsto> '''']) = Fallback"
    by (simp add: truthy_def)
  ultimately show ?thesis using a by blast
qed






section \<open>Properties of the response\<close>

text \<open>
  Claim C4 does not hold of the code.  The handler reads the content-type from the headers
  that \<open>setResponseHeaders\<close> has rewritten.  For the upstream host \<open>text\<close> the header
  \<open>text/html\<close> of the upstream, which contains \<open>text/\<close>, has become \<open>proxy.dev/html\<close>
  when it is read, and the body is passed through as the stream of the upstream, the
  hostname in it not rewritten.
\<close>

theorem rewritten_content_type_skips_rewrite:
  "textual ''text/html''
   \<and> (case fetch literal_engine
              (\<lambda>r. Some (ok_response [''content-type'' \<mapsto> ''text/html'']
                           ''see https://text/docs''))
              plain_web (proxy_env ''text'') (get_request ''proxy.dev'' ''/docs'' Map.empty) of
         Proxied r \<Rightarrow> Some (res_body r, res_headers r ''content-type'')
       | _ \<Rightarrow> None)
       = Some (Stream ''see https://text/docs'', Some ''proxy.dev/html'')"
  by code_simp

text \<open>
  Claim C10 does not hold of the code, by the defect of claim C4.  For the upstream host
  \<open>xml\<close> and the origin \<open>json.proxy.dev\<close> the header \<open>application/xml\<close> of the upstream,
  which contains neither \<open>text/\<close> nor \<open>application/json\<close>, has become
  \<open>application/json.proxy.dev\<close> when it is read, and the body is rewritten.
\<close>

theorem rewritten_content_type_forces_rewrite:
  "\<not> textual ''application/xml''
   \<and> (case fetch literal_engine
              (\<lambda>r. Some (ok_response [''content-type'' \<mapsto> ''application/xml'']
                           ''see http://xml/docs''))
              plain_web (proxy_env ''xml'') (get_request ''json.proxy.dev'' ''/docs'' Map.empty) of
         Proxied r \<Rightarrow> Some (res_body r, res_headers r ''content-type'')
       | _ \<Rightarrow> None)
       = Some (Text ''see http://json.proxy.dev/docs'', Some ''application/json.proxy.dev'')"
  by code_simp

lemma otherHost_resolved:
  "otherHost (getGitHubProxyHost ''github.com'' pathname)
     = (if isGitHubAPIPath pathname then ''github.com'' else ''api.github.com'')"
  by (simp add: otherHost_def getGitHubProxyHost_def)

text \<open>
  Claim C8.  With the base hostname \<open>github.com\<close>, \<open>replaceResponseText\<close> applies to the
  result of its first replacement the unconstrained replacement of the other hostname
  (\<open>api.github.com\<close> for the resolved host \<open>github.com\<close>, and \<open>github.com\<close> for the resolved
  host \<open>api.github.com\<close>) by the origin, whatever \<open>pathnameRegex\<close> is; and so does the
  handler on every textual response when \<open>PROXY_HOSTNAME\<close> is \<open>github.com\<close>, whether the
  path is an API path or not.
\<close>

theorem other_host_replaced:
  "replaceResponseText rx text proxyHostname pathnameRegex originHostname (Some ''github.com'')
     = (case replaceProxyHost rx text proxyHostname pathnameRegex originHostname of
          Inl e \<Rightarrow> Inl e
        | Inr t \<Rightarrow> Inr (rewriteText t (otherHost proxyHostname) originHostname))
   \<and> otherHost (getGitHubProxyHost ''github.com'' pathname)
       = (if isGitHubAPIPath pathname then ''github.com'' else ''api.github.com'')
   \<and> (PROXY_HOSTNAME env = Some ''github.com''
       \<and> textual (contentType (setResponseHeaders resp
            (getGitHubProxyHost ''github.com'' pathname) originHostname (DEBUG env)))
      \<longrightarrow> respond rx env (getGitHubProxyHost ''github.com'' pathname) originHostname resp
          = (case replaceProxyHost rx (up_body resp)
                    (getGitHubProxyHost ''github.com'' pathname) (PATHNAME_REGEX env)
                    originHostname of
               Inl e \<Rightarrow> Inl e
             | Inr t \<Rightarrow>
                 Inr \<lparr>res_status = up_status resp,
                      res_headers = setResponseHeaders resp
                        (getGitHubProxyHost ''github.com'' pathname) originHostname (DEBUG env),
                      res_body = Text (rewriteText t
                        (if isGitHubAPIPath pathname then ''github.com'' else ''api.github.com'')
                        originHostname)\<rparr>))"
  by (simp add: replaceResponseText_def respond_def Let_def otherHost_resolved
      split: sum.splits)

theorem other_host_replaced_witness:
  "PROXY_HOSTNAME ((proxy_env ''github.com'')\<lparr>PATHNAME_REGEX := Some ''^/foo''\<rparr>)
     = Some ''github.com''
   \<and> getGitHubProxyHost ''github.com'' ''/foo/x'' = ''github.com''
   \<and> replaceProxyHost literal_engine
        ''see api.github.com and github.com/foo and github.com/bar'' ''github.com''
        (Some ''^/foo'') ''proxy.dev''
       = Inr ''see api.github.com and proxy.dev/foo and github.com/bar''
   \<and> map_sum id res_body
        (respond literal_engine ((proxy_env ''github.com'')\<lparr>PATHNAME_REGEX := Some ''^/foo''\<rparr>)
           (getGitHubProxyHost ''github.com'' ''/foo/x'') ''proxy.dev''
           (ok_response [''content-type'' \<mapsto> ''text/html'']
              ''see api.github.com and github.com/foo and github.com/bar''))
       = Inr (Text ''see proxy.dev and proxy.dev/foo and github.com/bar'')"
proof -
  let ?env = "(proxy_env ''github.com'')\<lparr>PATHNAME_REGEX := Some ''^/foo''\<rparr>"
  let ?resp = "ok_response [''content-type'' \<mapsto> ''text/html'']
              ''see api.github.com and github.com/foo and github.com/bar''"
  have a: "PROXY_HOSTNAME ?env = Some ''github.com''" by (simp add: proxy_env_def)
  have b: "getGitHubProxyHost ''github.com'' ''/foo/x'' = ''github.com''" by code_simp
  have b': "\<not> isGitHubAPIPath ''/foo/x''" by code_simp
  have c: "textual (contentType (setResponseHeaders ?resp
            (getGitHubProxyHost ''github.com'' ''/foo/x'') ''proxy.dev'' (DEBUG ?env)))"
    by code_simp
  have d: "replaceProxyHost literal_engine
        ''see api.github.com and github.com/foo and github.com/bar'' ''github.com''
        (Some ''^/foo'') ''proxy.dev''
       = Inr ''see api.github.com and proxy.dev/foo and github.com/bar''"
    by code_simp
  have e: "rewriteText ''see api.github.com and proxy.dev/foo and github.com/bar''
      ''api.github.com'' ''proxy.dev'' = ''see proxy.dev and proxy.dev/foo and github.com/bar''"
    by code_simp
  have f: "PATHNAME_REGEX ?env = Some ''^/foo''" "up_body ?resp = ''see api.github.com and github.com/foo and github.com/bar''"
    by (simp_all add: proxy_env_def ok_response_def)
  from other_host_replaced [of literal_engine "up_body ?resp" "''github.com''" "Some ''^/foo''"
      "''proxy.dev''" "''/foo/x''" ?env ?resp] a c
  have "respond literal_engine ?env (getGitHubProxyHost ''github.com'' ''/foo/x'') ''proxy.dev'' ?resp
     = (case replaceProxyHost literal_engine (up_body ?resp)
                    (getGitHubProxyHost ''github.com'' ''/foo/x'') (PATHNAME_REGEX ?env)
                    ''proxy.dev'' of
               Inl e \<Rightarrow> Inl e
             | Inr t \<Rightarrow>
                 Inr \<lparr>res_status = up_status ?resp,
                      res_headers = setResponseHeaders ?resp
                        (getGitHubProxyHost ''github.com'' ''/foo/x'') ''proxy.dev'' (DEBUG ?env),
                      res_body = Text (rewriteText t
                        (if isGitHubAPIPath ''/foo/x'' then ''github.com'' else ''api.github.com'')
                        ''proxy.dev'')\<rparr>)"
    by blast
  with a b b' d e f show ?thesis by simp
qed

section \<open>The substitution under a path filter\<close>

lemma host_then_Some:
  "host_then host pm pre post = Some j \<longleftrightarrow>
     (\<exists>k. host_match host pre post = Some (length host)
          \<and> pm (pre @ take (length host) post) (drop (length host) post) = Some k
          \<and> j = length host + k)"
proof (cases "host_match host pre post")
  case None
  then show ?thesis by (simp add: host_then_def)
next
  case (Some n)
  then have "n = length host" by (simp add: host_match_Some)
  with Some show ?thesis
    by (cases "pm (pre @ take (length host) post) (drop (length host) post)")
      (auto simp: host_then_def)
qed

lemma drop_take_sum: "drop n (take (n + k) xs) = take k (drop n xs)"
  by (simp add: drop_take)

lemma strip_caret_simps:
  "strip_caret (CHR ''^'' # p) = p" "strip_caret [] = []"
  "c \<noteq> CHR ''^'' \<Longrightarrow> strip_caret (c # p) = c # p"
  by (simp_all add: strip_caret_def)

text \<open>
  Claim C7.  With a \<open>pathnameRegex\<close>, whose pattern without its leading caret has the
  matcher \<open>pm\<close>, the first replacement splits the text into pieces.  Every matched piece
  is a match of the hostname pattern followed at once by a match of \<open>pm\<close>, and is replaced
  by the origin hostname followed by that second part unchanged.  Every other character
  is copied: where it stands, the hostname pattern does not match or \<open>pm\<close> does not match
  after it.
\<close>

theorem constrained_substitution:
  assumes "truthy pathnameRegex"
    and "rx (strip_caret (the pathnameRegex)) = Some pm"
    and "is_hostname proxyHostname" and "is_hostname originHostname"
  shows "srcs (segments (host_then proxyHostname pm) [] text) = text
     \<and> replaceProxyHost rx text proxyHostname pathnameRegex originHostname
         = Inr (assemble (\<lambda>w. originHostname @ drop (length proxyHostname) w)
                  (segments (host_then proxyHostname pm) [] text))
     \<and> (\<forall>ps1 w ps2. segments (host_then proxyHostname pm) [] text = ps1 @ Matched w # ps2 \<longrightarrow>
           host_match proxyHostname (srcs ps1) (w @ srcs ps2) = Some (length proxyHostname)
           \<and> length proxyHostname \<le> length w
           \<and> (\<exists>k. pm (srcs ps1 @ take (length proxyHostname) w)
                     (drop (length proxyHostname) w @ srcs ps2) = Some k
                  \<and> drop (length proxyHostname) w
                      = take k (drop (length proxyHostname) w @ srcs ps2)))
     \<and> (\<forall>ps1 c ps2. segments (host_then proxyHostname pm) [] text = ps1 @ Kept c # ps2 \<longrightarrow>
           host_match proxyHostname (srcs ps1) (c # srcs ps2) = None
           \<or> pm (srcs ps1 @ take (length proxyHostname) (c # srcs ps2))
                (drop (length proxyHostname) (c # srcs ps2)) = None)"
proof (intro conjI allI impI)
  show "srcs (segments (host_then proxyHostname pm) [] text) = text"
    by (rule srcs_segments)
  show "replaceProxyHost rx text proxyHostname pathnameRegex originHostname
         = Inr (assemble (\<lambda>w. originHostname @ drop (length proxyHostname) w)
                  (segments (host_then proxyHostname pm) [] text))"
    using assms(1,2) by (simp add: replaceProxyHost_def replace_global_def)
next
  fix ps1 w ps2
  let ?n = "length proxyHostname"
  assume eq: "segments (host_then proxyHostname pm) [] text = ps1 @ Matched w # ps2"
  from segments_Matched[OF eq] obtain j
    where m: "host_then proxyHostname pm (srcs ps1) (w @ srcs ps2) = Some j"
      and w: "w = take j (w @ srcs ps2)"
    by auto
  from m obtain k where hm: "host_match proxyHostname (srcs ps1) (w @ srcs ps2) = Some ?n"
    and pmk: "pm (srcs ps1 @ take ?n (w @ srcs ps2)) (drop ?n (w @ srcs ps2)) = Some k"
    and j: "j = ?n + k"
    unfolding host_then_Some by blast
  from hm have le: "?n \<le> length (w @ srcs ps2)" unfolding host_match_Some by blast
  have lw: "?n \<le> length w"
  proof -
    from w have "length w = min j (length (w @ srcs ps2))"
      by (metis length_take min.commute)
    with j le show ?thesis unfolding length_append by arith
  qed
  show "host_match proxyHostname (srcs ps1) (w @ srcs ps2) = Some ?n" by (rule hm)
  show "?n \<le> length w" by (rule lw)
  have "drop ?n w = drop ?n (take j (w @ srcs ps2))"
    by (rule arg_cong [OF w])
  also have "\<dots> = take k (drop ?n (w @ srcs ps2))"
    unfolding j by (rule drop_take_sum)
  also have "\<dots> = take k (drop ?n w @ srcs ps2)" using lw by simp
  finally have seg: "drop ?n w = take k (drop ?n w @ srcs ps2)" .
  from pmk lw have "pm (srcs ps1 @ take ?n w) (drop ?n w @ srcs ps2) = Some k" by simp
  with seg show "\<exists>k. pm (srcs ps1 @ take ?n w) (drop ?n w @ srcs ps2) = Some k
                  \<and> drop ?n w = take k (drop ?n w @ srcs ps2)"
    by blast
next
  fix ps1 c ps2
  let ?n = "length proxyHostname"
  assume eq: "segments (host_then proxyHostname pm) [] text = ps1 @ Kept c # ps2"
  from assms(3) have ne: "proxyHostname \<noteq> []" by (simp add: is_hostname_def)
  from segments_Kept[OF eq] have
    "host_then proxyHostname pm (srcs ps1) (c # srcs ps2) = None
     \<or> host_then proxyHostname pm (srcs ps1) (c # srcs ps2) = Some 0"
    by simp
  then have none: "host_then proxyHostname pm (srcs ps1) (c # srcs ps2) = None"
  proof
    assume "host_then proxyHostname pm (srcs ps1) (c # srcs ps2) = Some 0"
    then obtain k where "0 = ?n + k" unfolding host_then_Some by blast
    with ne show ?thesis by simp
  qed
  show "host_match proxyHostname (srcs ps1) (c # srcs ps2) = None
           \<or> pm (srcs ps1 @ take ?n (c # srcs ps2)) (drop ?n (c # srcs ps2)) = None"
  proof (cases "host_match proxyHostname (srcs ps1) (c # srcs ps2)")
    case None
    then show ?thesis by simp
  next
    case (Some n)
    then have n: "n = ?n" by (simp add: host_match_Some)
    with none Some show ?thesis
      by (auto simp: host_then_def split: option.splits)
  qed
qed

text \<open>The filter \<open>^/foo\<close>: the hostname before \<open>/foo\<close> is rewritten, the one before
  \<open>/bar\<close> is not.\<close>

theorem constrained_substitution_witness:
  "truthy (Some ''^/foo'')
   \<and> literal_engine (strip_caret (the (Some ''^/foo''))) = Some (literal_matcher False ''/foo'' False)
   \<and> is_hostname ''github.com'' \<and> is_hostname ''proxy.dev''
   \<and> segments (host_then ''github.com'' (literal_matcher False ''/foo'' False)) []
        ''github.com/foo/a github.com/bar''
       = [] @ Matched ''github.com/foo''
           # map Kept ''/a github.com/bar''
   \<and> replaceProxyHost literal_engine ''github.com/foo/a github.com/bar'' ''github.com''
        (Some ''^/foo'') ''proxy.dev''
       = Inr ''proxy.dev/foo/a github.com/bar''
   \<and> host_match ''github.com'' [] ''github.com/foo/a github.com/bar'' = Some 10
   \<and> literal_matcher False ''/foo'' False ''github.com'' ''/foo/a github.com/bar'' = Some 4"
proof -
  let ?pm = "literal_matcher False ''/foo'' False"
  let ?text = "''github.com/foo/a github.com/bar''"
  have a: "truthy (Some ''^/foo'')" by (simp add: truthy_def)
  have b: "literal_engine (strip_caret (the (Some ''^/foo''))) = Some ?pm"
    by (simp add: literal_engine_def strip_caret_def startsWith_def plain_char_def
        is_word_char_def code_def)
  have c: "is_hostname ''github.com''" by code_simp
  have d: "is_hostname ''proxy.dev''" by code_simp
  have s: "segments (host_then ''github.com'' ?pm) [] ?text
             = [] @ Matched ''github.com/foo'' # map Kept ''/a github.com/bar''"
    by code_simp
  have r: "assemble (\<lambda>w. ''proxy.dev'' @ drop (length ''github.com'') w)
             (segments (host_then ''github.com'' ?pm) [] ?text)
           = ''proxy.dev/foo/a github.com/bar''"
    by code_simp
  have e: "srcs (map Kept ''/a github.com/bar'') = ''/a github.com/bar''"
    by code_simp
  note t = constrained_substitution [of "Some ''^/foo''" literal_engine ?pm "''github.com''"
      "''proxy.dev''" ?text, OF a b c d]
  from t r have f: "replaceProxyHost literal_engine ?text ''github.com'' (Some ''^/foo'')
      ''proxy.dev'' = Inr ''proxy.dev/foo/a github.com/bar''"
    by simp
  from t s have "host_match ''github.com'' (srcs [])
      (''github.com/foo'' @ srcs (map Kept ''/a github.com/bar''))
      = Some (length ''github.com'')"
    by blast
  then have g: "host_match ''github.com'' [] ?text = Some 10"
    unfolding e by (simp add: srcs_Nil)
  have h: "?pm ''github.com'' ''/foo/a github.com/bar'' = Some 4"
    by code_simp
  from a b c d s f g h show ?thesis by blast
qed

end
